theory Spec2Isabelle
  imports Complex_Main "HOL-Library.AList"
begin

section \<open>Data model\<close>

text \<open>
  The notebook \<^verbatim>\<open>compare.ipynb\<close> converts a Hamiltonian between three
  representations:
  \<^item> \<^verbatim>\<open>openfermion.QubitOperator\<close>: the attribute \<^verbatim>\<open>terms\<close> is a dict from a term
    (a tuple of \<^verbatim>\<open>(index, 'X'|'Y'|'Z')\<close> pairs) to its coefficient;
  \<^item> \<^verbatim>\<open>cirq.PauliSum\<close>: a \<^verbatim>\<open>LinearDict\<close> from a frozenset of
    \<^verbatim>\<open>(qubit, Pauli)\<close> pairs to a coefficient;
  \<^item> \<^verbatim>\<open>qiskit.quantum_info.SparsePauliOp\<close>: a list of Pauli labels and an array of
    coefficients.

  A Python dict keeps insertion order, so a dict is an association list. Qubits are the
  \<^verbatim>\<open>LineQubit\<close>s \<^verbatim>\<open>qubit_operator_to_pauli_sum\<close> creates, identified with their
  index. A frozenset is a list of its elements that is only ever compared through
  \<^const>\<open>set\<close>. Coefficients are complex numbers; the rounding of floating point
  arithmetic is not modelled.
\<close>

datatype pauli = X | Y | Z

type_synonym pauli_term = "(nat \<times> pauli) list"

type_synonym qubit_operator = "(pauli_term \<times> complex) list"

record pauli_string =
  qubit_pauli_map :: "(nat \<times> pauli) list"
  coefficient :: complex

type_synonym pauli_sum = "((nat \<times> pauli) list \<times> complex) list"

record sparse_pauli_op =
  paulis :: "string list"
  coeffs :: "complex list"

datatype error =
  StopIteration | ValueError | IndexError | AssertionError | QiskitError | NameError
  | OverflowError

section \<open>Python strings\<close>

text \<open>\<^verbatim>\<open>str(index)\<close> for a non-negative int: its decimal digits.\<close>

definition digit_char :: "nat \<Rightarrow> char" where
  "digit_char d = ''0123456789'' ! d"

function str :: "nat \<Rightarrow> string" where
  "str n = (if n < 10 then [digit_char n] else str (n div 10) @ [digit_char (n mod 10)])"
  by pat_completeness auto
termination
  by (relation "measure id") auto

declare str.simps [simp del]

definition isdigit :: "char \<Rightarrow> bool" where
  "isdigit c = (c \<in> set ''0123456789'')"

definition digit_value :: "char \<Rightarrow> nat" where
  "digit_value c = of_char c - 48"

text \<open>\<^verbatim>\<open>int(s)\<close> for a string of decimal digits.\<close>

definition int_of_digits :: "string \<Rightarrow> nat" where
  "int_of_digits s = foldl (\<lambda>a c. 10 * a + digit_value c) 0 s"

text \<open>\<^verbatim>\<open>sep.join(xs)\<close>.\<close>

fun join :: "string \<Rightarrow> string list \<Rightarrow> string" where
  "join sep [] = []"
| "join sep [x] = x"
| "join sep (x # y # ys) = x @ sep @ join sep (y # ys)"

text \<open>
  \<^verbatim>\<open>s.split()\<close>: the maximal runs of characters that are not whitespace. The second
  argument is the run read so far.
\<close>

definition isspace :: "char \<Rightarrow> bool" where
  "isspace c = (c \<in> set [CHR '' '', CHR 0x09, CHR 0x0A, CHR 0x0B, CHR 0x0C, CHR 0x0D,
                          CHR 0x1C, CHR 0x1D, CHR 0x1E, CHR 0x1F, CHR 0x85, CHR 0xA0])"

fun split_run :: "string \<Rightarrow> string \<Rightarrow> string list" where
  "split_run [] cur = (if cur = [] then [] else [cur])"
| "split_run (c # cs) cur =
     (if isspace c then (if cur = [] then split_run cs [] else cur # split_run cs [])
      else split_run cs (cur @ [c]))"

definition split :: "string \<Rightarrow> string list" where
  "split s = split_run s []"

section \<open>openfermion: building a QubitOperator from a string\<close>

text \<open>
  \<^verbatim>\<open>QubitOperator(key, coefficient)\<close> parses \<^verbatim>\<open>key\<close> into factors
  (\<^verbatim>\<open>SymbolicOperator._parse_string\<close>), brings the term to normal form
  (\<^verbatim>\<open>QubitOperator._simplify\<close>: factors sorted by index, the Paulis on one index multiplied)
  and stores the one term with the resulting coefficient.
\<close>

definition pauli_to_str :: "pauli \<Rightarrow> string" where
  "pauli_to_str p = (case p of X \<Rightarrow> ''X'' | Y \<Rightarrow> ''Y'' | Z \<Rightarrow> ''Z'')"

definition action_of_string :: "string \<Rightarrow> pauli option" where
  "action_of_string s =
     (if s = ''X'' then Some X else if s = ''Y'' then Some Y
      else if s = ''Z'' then Some Z else None)"

text \<open>
  One factor such as \<^verbatim>\<open>X12\<close>: the index is the longest run of digits at the end, the
  action is what stands before it. Anything else is a \<^verbatim>\<open>ValueError\<close>.
\<close>

definition parse_factor :: "string \<Rightarrow> error + (nat \<times> pauli)" where
  "parse_factor factor =
     (if factor = [] \<or> \<not> isdigit (last factor) then Inl ValueError
      else
        let digits = rev (takeWhile isdigit (rev factor));
            action_string = take (length factor - length digits) factor
        in (case action_of_string action_string of
              None \<Rightarrow> Inl ValueError
            | Some action \<Rightarrow> Inr (int_of_digits digits, action)))"

fun parse_factors :: "string list \<Rightarrow> error + pauli_term" where
  "parse_factors [] = Inr []"
| "parse_factors (factor # factors) =
     (case parse_factor factor of
        Inl e \<Rightarrow> Inl e
      | Inr f \<Rightarrow> (case parse_factors factors of Inl e \<Rightarrow> Inl e | Inr fs \<Rightarrow> Inr (f # fs)))"

definition parse_string :: "string \<Rightarrow> error + pauli_term" where
  "parse_string s = parse_factors (split s)"

text \<open>
  The table \<^verbatim>\<open>_PAULI_OPERATOR_PRODUCTS\<close>; \<open>None\<close> is the identity \<^verbatim>\<open>'I'\<close>, which
  only arises as a product.
\<close>

fun pauli_product :: "pauli option \<Rightarrow> pauli option \<Rightarrow> complex \<times> pauli option" where
  "pauli_product None q = (1, q)"
| "pauli_product p None = (1, p)"
| "pauli_product (Some X) (Some X) = (1, None)"
| "pauli_product (Some Y) (Some Y) = (1, None)"
| "pauli_product (Some Z) (Some Z) = (1, None)"
| "pauli_product (Some X) (Some Y) = (\<i>, Some Z)"
| "pauli_product (Some X) (Some Z) = (- \<i>, Some Y)"
| "pauli_product (Some Y) (Some X) = (- \<i>, Some Z)"
| "pauli_product (Some Y) (Some Z) = (\<i>, Some X)"
| "pauli_product (Some Z) (Some X) = (\<i>, Some Y)"
| "pauli_product (Some Z) (Some Y) = (- \<i>, Some X)"

text \<open>
  The loop of \<^verbatim>\<open>_simplify\<close> over the sorted factors: \<open>left\<close> is the factor being
  accumulated, \<open>new_term\<close> the factors already emitted.
\<close>

fun simplify_loop ::
  "(nat \<times> pauli option) \<Rightarrow> (nat \<times> pauli option) list \<Rightarrow> pauli_term \<Rightarrow> complex
   \<Rightarrow> complex \<times> pauli_term" where
  "simplify_loop (li, la) [] new_term c =
     (c, (case la of None \<Rightarrow> new_term | Some a \<Rightarrow> new_term @ [(li, a)]))"
| "simplify_loop (li, la) ((ri, ra) # rest) new_term c =
     (if li = ri then
        (case pauli_product la ra of
           (new_c, new_a) \<Rightarrow> simplify_loop (li, new_a) rest new_term (c * new_c))
      else
        simplify_loop (ri, ra) rest
          (case la of None \<Rightarrow> new_term | Some a \<Rightarrow> new_term @ [(li, a)]) c)"

definition simplify :: "pauli_term \<Rightarrow> complex \<Rightarrow> complex \<times> pauli_term" where
  "simplify t c =
     (case map (\<lambda>(i, a). (i, Some a)) (sort_key fst t) of
        [] \<Rightarrow> (c, t)
      | left # rest \<Rightarrow> simplify_loop left rest [] c)"

definition QubitOperator :: "string \<Rightarrow> complex \<Rightarrow> error + qubit_operator" where
  "QubitOperator key c =
     (case parse_string key of
        Inl e \<Rightarrow> Inl e
      | Inr t \<Rightarrow> (case simplify t c of (c', t') \<Rightarrow> Inr [(t', c')]))"

section \<open>cirq: PauliString and PauliSum\<close>

text \<open>
  \<^verbatim>\<open>dict(pairs)\<close>: a pair whose key is already present replaces the value where the key
  stands, a new key goes to the end.
\<close>

definition dict :: "('k \<times> 'v) list \<Rightarrow> ('k \<times> 'v) list" where
  "dict kvs = foldl (\<lambda>d (k, v). AList.update k v d) [] kvs"

text \<open>
  \<^verbatim>\<open>cirq.value.LinearDict\<close>. Keys are frozensets, compared as sets. A coefficient equal
  to zero is never stored: \<^verbatim>\<open>__setitem__\<close> deletes the key instead, and
  \<^verbatim>\<open>clean(atol=0)\<close> removes what is left.
\<close>

fun linear_dict_get :: "pauli_sum \<Rightarrow> (nat \<times> pauli) list \<Rightarrow> complex" where
  "linear_dict_get [] v = 0"
| "linear_dict_get ((k, c) # d) v = (if set k = set v then c else linear_dict_get d v)"

fun linear_dict_store :: "pauli_sum \<Rightarrow> (nat \<times> pauli) list \<Rightarrow> complex \<Rightarrow> pauli_sum" where
  "linear_dict_store [] v c = [(v, c)]"
| "linear_dict_store ((k, c') # d) v c =
     (if set k = set v then (k, c) # d else (k, c') # linear_dict_store d v c)"

definition linear_dict_del :: "pauli_sum \<Rightarrow> (nat \<times> pauli) list \<Rightarrow> pauli_sum" where
  "linear_dict_del d v = filter (\<lambda>(k, c). set k \<noteq> set v) d"

definition linear_dict_setitem ::
  "pauli_sum \<Rightarrow> (nat \<times> pauli) list \<Rightarrow> complex \<Rightarrow> pauli_sum" where
  "linear_dict_setitem d v c =
     (if c \<noteq> 0 then linear_dict_store d v c else linear_dict_del d v)"

definition clean :: "real \<Rightarrow> pauli_sum \<Rightarrow> pauli_sum" where
  "clean atol d = filter (\<lambda>(k, c). \<not> cmod c \<le> atol) d"

definition linear_dict_items :: "pauli_sum \<Rightarrow> pauli_sum" where
  "linear_dict_items d = clean 0 d"

definition linear_dict_update :: "pauli_sum \<Rightarrow> pauli_sum \<Rightarrow> pauli_sum" where
  "linear_dict_update d terms =
     clean 0 (foldl (\<lambda>s (v, c). linear_dict_setitem s v c) d terms)"

definition linear_dict_iadd :: "pauli_sum \<Rightarrow> pauli_sum \<Rightarrow> pauli_sum" where
  "linear_dict_iadd d other =
     clean 0 (foldl (\<lambda>s (v, c). linear_dict_setitem s v (linear_dict_get s v + c))
                d (linear_dict_items other))"

text \<open>
  \<^verbatim>\<open>PauliSum.from_pauli_strings\<close> sums the coefficients per key, starting from 0, and
  wraps the result in a \<^verbatim>\<open>LinearDict\<close>.
\<close>

definition from_pauli_strings :: "pauli_string list \<Rightarrow> pauli_sum" where
  "from_pauli_strings terms =
     linear_dict_update []
       (foldl (\<lambda>termdict pstring.
                 linear_dict_store termdict (qubit_pauli_map pstring)
                   (linear_dict_get termdict (qubit_pauli_map pstring) + coefficient pstring))
          [] terms)"

text \<open>\<^verbatim>\<open>pauli_sum += pauli_string\<close>.\<close>

definition pauli_sum_iadd :: "pauli_sum \<Rightarrow> pauli_string \<Rightarrow> pauli_sum" where
  "pauli_sum_iadd s other = linear_dict_iadd s (from_pauli_strings [other])"

text \<open>Iterating a \<^verbatim>\<open>PauliSum\<close> yields one \<^verbatim>\<open>PauliString\<close> per item.\<close>

definition pauli_sum_iter :: "pauli_sum \<Rightarrow> pauli_string list" where
  "pauli_sum_iter s =
     map (\<lambda>(vec, c). \<lparr>qubit_pauli_map = dict vec, coefficient = c\<rparr>) (linear_dict_items s)"

text \<open>\<^verbatim>\<open>PauliSum.qubits\<close>: the sorted tuple of the qubits of all keys.\<close>

definition pauli_sum_qubits :: "pauli_sum \<Rightarrow> nat list" where
  "pauli_sum_qubits s = sort (remdups (concat (map (\<lambda>(k, c). map fst k) s)))"

text \<open>\<^verbatim>\<open>next(iter(xs))\<close>.\<close>

definition next_iter :: "'a list \<Rightarrow> error + 'a" where
  "next_iter xs = (case xs of [] \<Rightarrow> Inl StopIteration | x # _ \<Rightarrow> Inr x)"

section \<open>openfermion: \<^verbatim>\<open>qubit_operator_to_pauli_sum\<close>\<close>

text \<open>
  Called without \<^verbatim>\<open>qubits\<close>, the function takes the line qubits
  \<^verbatim>\<open>0 .. count_qubits(operator) - 1\<close> and adds one \<^verbatim>\<open>PauliString\<close> per term.
\<close>

definition count_qubits :: "qubit_operator \<Rightarrow> nat" where
  "count_qubits operator =
     foldl (\<lambda>num_qubits (term, c).
              if term \<noteq> [] \<and> num_qubits < fst (last term) + 1 then fst (last term) + 1
              else num_qubits)
       0 operator"

text \<open>
  \<^verbatim>\<open>dict((qubits[ind], op) for ind, op in ind_ops)\<close>; \<^verbatim>\<open>qubits[ind]\<close> raises
  \<^verbatim>\<open>IndexError\<close> past the end of the list.
\<close>

fun qubit_pairs :: "nat list \<Rightarrow> pauli_term \<Rightarrow> error + (nat \<times> pauli) list" where
  "qubit_pairs qubits [] = Inr []"
| "qubit_pairs qubits ((ind, op) # ind_ops) =
     (if ind < length qubits then
        (case qubit_pairs qubits ind_ops of
           Inl e \<Rightarrow> Inl e
         | Inr kvs \<Rightarrow> Inr ((qubits ! ind, op) # kvs))
      else Inl IndexError)"

definition qubit_operator_term_to_pauli_string ::
  "pauli_term \<times> complex \<Rightarrow> nat list \<Rightarrow> error + pauli_string" where
  "qubit_operator_term_to_pauli_string term qubits =
     (case term of (ind_ops, coeff) \<Rightarrow>
        (case qubit_pairs qubits ind_ops of
           Inl e \<Rightarrow> Inl e
         | Inr kvs \<Rightarrow> Inr \<lparr>qubit_pauli_map = dict kvs, coefficient = coeff\<rparr>))"

fun add_pauli_strings :: "nat list \<Rightarrow> qubit_operator \<Rightarrow> pauli_sum \<Rightarrow> error + pauli_sum" where
  "add_pauli_strings qubits [] pauli_sum = Inr pauli_sum"
| "add_pauli_strings qubits (pauli # rest) pauli_sum =
     (case qubit_operator_term_to_pauli_string pauli qubits of
        Inl e \<Rightarrow> Inl e
      | Inr pstring \<Rightarrow> add_pauli_strings qubits rest (pauli_sum_iadd pauli_sum pstring))"

definition qubit_operator_to_pauli_sum :: "qubit_operator \<Rightarrow> error + pauli_sum" where
  "qubit_operator_to_pauli_sum operator =
     (let qubits = [0 ..< count_qubits operator]
      in add_pauli_strings qubits operator [])"

section \<open>\<^verbatim>\<open>preprocess_hamiltonian\<close>\<close>

text \<open>
  \<^verbatim>\<open>
  def preprocess_hamiltonian(hamiltonian, drop_term_if=None):
      if drop_term_if is None:
          drop_term_if = []
      new = cirq.PauliSum()
      for i, term in enumerate(hamiltonian.terms):
          add_term = True
          for drop_term in drop_term_if:
              if drop_term(term):
                  add_term = False
                  break
          if add_term:
              key = " ".join(pauli + str(index) for index, pauli in term)
              new += next(iter(of.transforms.qubit_operator_to_pauli_sum(
                  of.QubitOperator(key, hamiltonian.terms.get(term)))))
      return new
  \<close>
  The function works on two objects, the argument \<^verbatim>\<open>hamiltonian\<close> and the local
  \<^verbatim>\<open>new\<close>; both are fields of the state the loop passes on, so that what the loop
  does to its argument is part of the model. An exception ends the loop with the state
  reached so far. The calls of \<^verbatim>\<open>print\<close> are left out, here and below.
\<close>

record preprocess_state =
  hamiltonian :: qubit_operator
  new :: pauli_sum

fun add_term :: "(pauli_term \<Rightarrow> bool) list \<Rightarrow> pauli_term \<Rightarrow> bool" where
  "add_term [] term = True"
| "add_term (drop_term # rest) term = (if drop_term term then False else add_term rest term)"

definition key_of_term :: "pauli_term \<Rightarrow> string" where
  "key_of_term term = join '' '' (map (\<lambda>(index, pauli). pauli_to_str pauli @ str index) term)"

text \<open>
  \<^verbatim>\<open>hamiltonian.terms.get(term)\<close> is \<^verbatim>\<open>None\<close> for a missing key, and
  \<^verbatim>\<open>QubitOperator\<close> rejects a coefficient that is not a number with a \<^verbatim>\<open>ValueError\<close>.
\<close>

definition converted_term :: "qubit_operator \<Rightarrow> pauli_term \<Rightarrow> error + pauli_string" where
  "converted_term h term =
     (case map_of h term of
        None \<Rightarrow> Inl ValueError
      | Some c \<Rightarrow>
          (case QubitOperator (key_of_term term) c of
             Inl e \<Rightarrow> Inl e
           | Inr operator \<Rightarrow>
               (case qubit_operator_to_pauli_sum operator of
                  Inl e \<Rightarrow> Inl e
                | Inr converted \<Rightarrow> next_iter (pauli_sum_iter converted))))"

fun preprocess_loop ::
  "(pauli_term \<Rightarrow> bool) list \<Rightarrow> pauli_term list \<Rightarrow> preprocess_state
   \<Rightarrow> error option \<times> preprocess_state" where
  "preprocess_loop drop_term_if [] s = (None, s)"
| "preprocess_loop drop_term_if (term # rest) s =
     (if add_term drop_term_if term then
        (case converted_term (hamiltonian s) term of
           Inl e \<Rightarrow> (Some e, s)
         | Inr pstring \<Rightarrow>
             preprocess_loop drop_term_if rest (s\<lparr>new := pauli_sum_iadd (new s) pstring\<rparr>))
      else preprocess_loop drop_term_if rest s)"

definition preprocess_run ::
  "qubit_operator \<Rightarrow> (pauli_term \<Rightarrow> bool) list option \<Rightarrow> error option \<times> preprocess_state" where
  "preprocess_run h drop_term_if =
     (let drop_term_if = (case drop_term_if of None \<Rightarrow> [] | Some ps \<Rightarrow> ps)
      in preprocess_loop drop_term_if (map fst h) \<lparr>hamiltonian = h, new = []\<rparr>)"

definition preprocess_hamiltonian ::
  "qubit_operator \<Rightarrow> (pauli_term \<Rightarrow> bool) list option \<Rightarrow> error + pauli_sum" where
  "preprocess_hamiltonian h drop_term_if =
     (case preprocess_run h drop_term_if of
        (None, s) \<Rightarrow> Inr (new s)
      | (Some e, s) \<Rightarrow> Inl e)"

text \<open>
  The terms of a \<^verbatim>\<open>QubitOperator\<close> are kept in the normal form of \<^const>\<open>simplify\<close>:
  the indices of a term increase strictly. The keys of the dict \<^verbatim>\<open>terms\<close> are
  distinct.
\<close>

definition canonical :: "pauli_term \<Rightarrow> bool" where
  "canonical t = sorted_wrt (<) (map fst t)"

definition well_formed :: "qubit_operator \<Rightarrow> bool" where
  "well_formed h = (distinct (map fst h) \<and> list_all canonical (map fst h))"

section \<open>\<^verbatim>\<open>cirq_pauli_sum_to_qiskit_pauli_op\<close>\<close>

text \<open>
  \<^verbatim>\<open>
  def cirq_pauli_sum_to_qiskit_pauli_op(pauli_sum):
      cirq_pauli_to_str = {cirq.X: "X", cirq.Y: "Y", cirq.Z: "Z"}
      qubits = pauli_sum.qubits
      terms = []
      coeffs = []
      for i, term in enumerate(pauli_sum):
          string = ""
          for qubit in qubits:
              if qubit not in term:
                  string += "I"
              else:
                  string += cirq_pauli_to_str[term[qubit]]
          terms.append(string)
          assert np.isclose(term.coefficient.imag, 0.0, atol=1e-7)
          coeffs.append(term.coefficient.real)
      return SparsePauliOp(terms, coeffs)
  \<close>
\<close>

definition cirq_pauli_to_str :: "pauli \<Rightarrow> string" where
  "cirq_pauli_to_str p = (case p of X \<Rightarrow> ''X'' | Y \<Rightarrow> ''Y'' | Z \<Rightarrow> ''Z'')"

text \<open>\<^verbatim>\<open>numpy.isclose(a, b, rtol, atol)\<close> on finite numbers; \<^verbatim>\<open>rtol\<close> defaults to \<^verbatim>\<open>1e-5\<close>.\<close>

definition isclose :: "real \<Rightarrow> real \<Rightarrow> real \<Rightarrow> real \<Rightarrow> bool" where
  "isclose a b rtol atol = (\<bar>a - b\<bar> \<le> atol + rtol * \<bar>b\<bar>)"

text \<open>
  \<^verbatim>\<open>SparsePauliOp(data, coeffs)\<close> keeps the labels and the coefficients in the order
  given, the coefficients as complex numbers. It builds a \<^verbatim>\<open>PauliList\<close> from the
  labels, which raises \<^verbatim>\<open>QiskitError\<close> for an empty list. The function below always
  passes as many coefficients as labels, and labels that are words over \<^verbatim>\<open>I\<close>,
  \<^verbatim>\<open>X\<close>, \<^verbatim>\<open>Y\<close>, \<^verbatim>\<open>Z\<close> of one common length; what qiskit does with other
  labels is not modelled, and lists of two different lengths, some of which qiskit
  accepts, are given as an error.
\<close>

definition SparsePauliOp :: "string list \<Rightarrow> real list \<Rightarrow> error + sparse_pauli_op" where
  "SparsePauliOp data cs =
     (if data = [] then Inl QiskitError
      else if length cs \<noteq> length data then Inl QiskitError
      else Inr \<lparr>paulis = data, coeffs = map complex_of_real cs\<rparr>)"

record convert_state =
  pauli_sum :: pauli_sum
  terms :: "string list"
  coeffs_list :: "real list"

fun term_string :: "nat list \<Rightarrow> pauli_string \<Rightarrow> string \<Rightarrow> string" where
  "term_string [] term string = string"
| "term_string (qubit # qubits) term string =
     term_string qubits term
       (case map_of (qubit_pauli_map term) qubit of
          None \<Rightarrow> string @ ''I''
        | Some p \<Rightarrow> string @ cirq_pauli_to_str p)"

fun convert_loop ::
  "nat list \<Rightarrow> pauli_string list \<Rightarrow> convert_state \<Rightarrow> error option \<times> convert_state" where
  "convert_loop qubits [] s = (None, s)"
| "convert_loop qubits (term # rest) s =
     (let string = term_string qubits term [];
          s = s\<lparr>terms := terms s @ [string]\<rparr>
      in if \<not> isclose (Im (coefficient term)) 0 (1 / 10 ^ 5) (1 / 10 ^ 7)
         then (Some AssertionError, s)
         else convert_loop qubits rest
                (s\<lparr>coeffs_list := coeffs_list s @ [Re (coefficient term)]\<rparr>))"

definition convert_run :: "pauli_sum \<Rightarrow> (error + sparse_pauli_op) \<times> convert_state" where
  "convert_run ps =
     (let qubits = pauli_sum_qubits ps
      in (case convert_loop qubits (pauli_sum_iter ps)
                 \<lparr>pauli_sum = ps, terms = [], coeffs_list = []\<rparr> of
            (Some e, s) \<Rightarrow> (Inl e, s)
          | (None, s) \<Rightarrow> (SparsePauliOp (terms s) (coeffs_list s), s)))"

definition cirq_pauli_sum_to_qiskit_pauli_op :: "pauli_sum \<Rightarrow> error + sparse_pauli_op" where
  "cirq_pauli_sum_to_qiskit_pauli_op ps = fst (convert_run ps)"

text \<open>
  A \<^verbatim>\<open>PauliSum\<close> holds no coefficient equal to zero, and each of its keys comes from
  the items of a dict, so it names a qubit once.
\<close>

definition well_formed_sum :: "pauli_sum \<Rightarrow> bool" where
  "well_formed_sum s = list_all (\<lambda>(k, c). distinct (map fst k) \<and> c \<noteq> 0) s"

text \<open>
  What C2 says of a result \<open>r\<close> for the sum \<open>s\<close>, in the claim's words: one label and
  one coefficient per term, in the order of the terms; each label as long as the sum has
  qubits; its \<open>j\<close>-th character \<^verbatim>\<open>I\<close> when the \<open>j\<close>-th qubit is not in the term, and
  else the letter of the Pauli on that qubit; the coefficient the real part of the
  term's.
\<close>

definition one_label_per_term :: "pauli_sum \<Rightarrow> sparse_pauli_op \<Rightarrow> bool" where
  "one_label_per_term s r =
     (length (paulis r) = length s \<and> length (coeffs r) = length s \<and>
      (\<forall>i < length s.
         length (paulis r ! i) = length (pauli_sum_qubits s) \<and>
         coeffs r ! i = complex_of_real (Re (snd (s ! i))) \<and>
         (\<forall>j < length (pauli_sum_qubits s).
            (pauli_sum_qubits s ! j \<notin> fst ` set (fst (s ! i)) \<longrightarrow> paulis r ! i ! j = CHR ''I'') \<and>
            (\<forall>p. (pauli_sum_qubits s ! j, p) \<in> set (fst (s ! i)) \<longrightarrow>
                 [paulis r ! i ! j] = cirq_pauli_to_str p))))"

section \<open>Doubles\<close>

text \<open>
  A Python \<^verbatim>\<open>float\<close> is an IEEE binary64 number. A finite one is modelled by the real
  number it stands for (the two zeros are one number), the others are the two infinities
  and NaN. A result is rounded to the nearest double, to the one with the even
  significand half way between two doubles, and to an infinity from \<open>2 ^ 1024 - 2 ^ 970\<close>
  on.
\<close>

datatype float = Finite real | PInf | NInf | NaN

text \<open>\<^verbatim>\<open>n.bit_length()\<close> for \<open>0 \<le> n\<close>.\<close>

function bit_length :: "int \<Rightarrow> int" where
  "bit_length n = (if n \<le> 0 then 0 else 1 + bit_length (n div 2))"
  by pat_completeness auto
termination
  by (relation "measure nat") auto

declare bit_length.simps [simp del]

text \<open>For \<open>0 < x\<close>, the integer \<open>e\<close> with \<open>2 ^ e \<le> x < 2 ^ (e + 1)\<close>.\<close>

definition floor_log2 :: "real \<Rightarrow> int" where
  "floor_log2 x =
     (if 1 \<le> x then bit_length \<lfloor>x\<rfloor> - 1 else - bit_length (\<lceil>1 / x\<rceil> - 1))"

definition pow2 :: "int \<Rightarrow> real" where
  "pow2 e = (if 0 \<le> e then 2 ^ nat e else 1 / 2 ^ nat (- e))"

text \<open>The nearest integer; half way between two integers, the even one.\<close>

definition rint :: "real \<Rightarrow> int" where
  "rint x =
     (let f = \<lfloor>x\<rfloor>; d = x - of_int f
      in if d < 1 / 2 then f else if 1 / 2 < d then f + 1 else if even f then f else f + 1)"

text \<open>
  The double nearest to a real number. The significand has 53 bits; below \<open>2 ^ - 1022\<close>
  the doubles are \<open>2 ^ - 1074\<close> apart.
\<close>

definition float_round :: "real \<Rightarrow> float" where
  "float_round x =
     (if x = 0 then Finite 0
      else
        let e = max (floor_log2 \<bar>x\<bar>) (- 1022);
            ulp = pow2 (e - 52);
            y = of_int (rint (x / ulp)) * ulp
        in if 2 ^ 1024 \<le> \<bar>y\<bar> then (if 0 < x then PInf else NInf) else Finite y)"

text \<open>
  \<^verbatim>\<open>a / b\<close> on doubles. For a divisor zero numpy gives an infinity or NaN where Python's
  own \<^verbatim>\<open>float\<close> raises \<^verbatim>\<open>ZeroDivisionError\<close>; the equations for it follow
  numpy, and no divisor below is zero.
\<close>

fun float_div :: "float \<Rightarrow> float \<Rightarrow> float" where
  "float_div NaN b = NaN"
| "float_div a NaN = NaN"
| "float_div (Finite x) (Finite y) =
     (if y = 0 then (if x = 0 then NaN else if 0 < x then PInf else NInf)
      else float_round (x / y))"
| "float_div (Finite x) b = Finite 0"
| "float_div PInf (Finite y) = (if 0 \<le> y then PInf else NInf)"
| "float_div NInf (Finite y) = (if 0 \<le> y then NInf else PInf)"
| "float_div a b = NaN"

text \<open>
  \<^verbatim>\<open>x ** 2\<close> on a Python \<^verbatim>\<open>float\<close>: the square, rounded; an overflow raises
  \<^verbatim>\<open>OverflowError\<close>.
\<close>

fun float_pow2 :: "float \<Rightarrow> error + float" where
  "float_pow2 (Finite x) =
     (case float_round (x * x) of Finite y \<Rightarrow> Inr (Finite y) | _ \<Rightarrow> Inl OverflowError)"
| "float_pow2 NaN = Inr NaN"
| "float_pow2 a = Inr PInf"

section \<open>Number of shots\<close>

text \<open>
  \<^verbatim>\<open>
  epsilons = [0.1, 0.01, 0.001]
  kvals = [1, 2, nqubits // 2, nqubits]
  all_shots = []
  for k in kvals:
      groups = kcommute.get_si_sets(hamiltonian, k=k)
      groups_of = convert.to_groups_of(groups)
      base_shots = kcommute.compute_shots(groups_of, evec, epsilon=1)
      shots = [base_shots / epsilon ** 2 for epsilon in epsilons]
      all_shots.append(shots)
  \<close>
  The modules \<^verbatim>\<open>kcommute\<close> and \<^verbatim>\<open>convert\<close> are not part of the notebook: their
  three functions are parameters of the model, \<^verbatim>\<open>compute_shots\<close> with a double as
  its result. Python looks a module up by its name when the call is evaluated and raises
  \<^verbatim>\<open>NameError\<close> for a name that nothing has bound, so the names bound so far are a
  parameter too; \<open>operator\<close> stands for the global \<^verbatim>\<open>hamiltonian\<close>.
\<close>


text \<open>A literal such as \<^verbatim>\<open>0.1\<close> is the double nearest to the decimal.\<close>

definition epsilons :: "float list" where
  "epsilons = [float_round (1 / 10), float_round (1 / 100), float_round (1 / 1000)]"

definition kvals :: "nat \<Rightarrow> nat list" where
  "kvals nqubits = [1, 2, nqubits div 2, nqubits]"

text \<open>The list comprehension \<^verbatim>\<open>[base_shots / epsilon ** 2 for epsilon in epsilons]\<close>.\<close>

fun shots_row :: "float \<Rightarrow> float list \<Rightarrow> error + float list" where
  "shots_row base_shots [] = Inr []"
| "shots_row base_shots (epsilon # rest) =
     (case float_pow2 epsilon of
        Inl e \<Rightarrow> Inl e
      | Inr square \<Rightarrow>
          (case shots_row base_shots rest of
             Inl e \<Rightarrow> Inl e
           | Inr shots \<Rightarrow> Inr (float_div base_shots square # shots)))"

fun shots_loop ::
  "string list \<Rightarrow> ('h \<Rightarrow> nat \<Rightarrow> 'g) \<Rightarrow> ('g \<Rightarrow> 'f) \<Rightarrow> ('f \<Rightarrow> 'v \<Rightarrow> int \<Rightarrow> float) \<Rightarrow> 'h \<Rightarrow> 'v
   \<Rightarrow> nat list \<Rightarrow> float list list \<Rightarrow> error option \<times> float list list" where
  "shots_loop names get_si_sets to_groups_of compute_shots operator evec [] all_shots =
     (None, all_shots)"
| "shots_loop names get_si_sets to_groups_of compute_shots operator evec (k # ks) all_shots =
     (if ''kcommute'' \<notin> set names then (Some NameError, all_shots)
      else
        let groups = get_si_sets operator k
        in if ''convert'' \<notin> set names then (Some NameError, all_shots)
           else
             let groups_of = to_groups_of groups;
                 base_shots = compute_shots groups_of evec 1
             in (case shots_row base_shots epsilons of
                   Inl e \<Rightarrow> (Some e, all_shots)
                 | Inr shots \<Rightarrow>
                     shots_loop names get_si_sets to_groups_of compute_shots operator evec ks
                       (all_shots @ [shots])))"

definition all_shots ::
  "string list \<Rightarrow> ('h \<Rightarrow> nat \<Rightarrow> 'g) \<Rightarrow> ('g \<Rightarrow> 'f) \<Rightarrow> ('f \<Rightarrow> 'v \<Rightarrow> int \<Rightarrow> float) \<Rightarrow> 'h \<Rightarrow> 'v
   \<Rightarrow> nat \<Rightarrow> error option \<times> float list list" where
  "all_shots names get_si_sets to_groups_of compute_shots operator evec nqubits =
     shots_loop names get_si_sets to_groups_of compute_shots operator evec (kvals nqubits) []"

section \<open>Strings: formatting a term and reading it back\<close>


lemma isdigit_digit_char: "d < 10 \<Longrightarrow> isdigit (digit_char d)"
proof -
  assume "d < 10"
  then have "d \<in> {0,1,2,3,4,5,6,7,8,9}" by auto
  then show ?thesis by (auto simp: isdigit_def digit_char_def)
qed

lemma digit_value_digit_char: "d < 10 \<Longrightarrow> digit_value (digit_char d) = d"
proof -
  assume "d < 10"
  then have "d \<in> {0,1,2,3,4,5,6,7,8,9}" by auto
  then show ?thesis by (auto simp: digit_value_def digit_char_def)
qed

lemma str_digits: "\<forall>c \<in> set (str n). isdigit c"
proof (induction n rule: str.induct)
  case (1 n)
  show ?case
  proof (cases "n < 10")
    case True
    then show ?thesis by (subst str.simps) (simp add: isdigit_digit_char)
  next
    case False
    with 1 show ?thesis by (subst str.simps) (simp add: isdigit_digit_char)
  qed
qed

lemma str_nonempty: "str n \<noteq> []"
  by (subst str.simps) simp

lemma int_of_digits_snoc: "int_of_digits (s @ [c]) = 10 * int_of_digits s + digit_value c"
  by (simp add: int_of_digits_def)

lemma int_of_digits_str: "int_of_digits (str n) = n"
proof (induction n rule: str.induct)
  case (1 n)
  show ?case
  proof (cases "n < 10")
    case True
    then show ?thesis
      by (subst str.simps) (simp add: int_of_digits_def digit_value_digit_char)
  next
    case False
    with 1 show ?thesis
      by (subst str.simps) (simp add: int_of_digits_snoc digit_value_digit_char)
  qed
qed

lemma action_of_string_pauli: "action_of_string (pauli_to_str p) = Some p"
  by (cases p) (simp_all add: pauli_to_str_def action_of_string_def)

lemma parse_factor_format: "parse_factor (pauli_to_str p @ str n) = Inr (n, p)"
proof -
  obtain a where a: "pauli_to_str p = [a]" "\<not> isdigit a"
    by (cases p) (simp_all add: pauli_to_str_def isdigit_def)
  have tw: "takeWhile isdigit (rev (str n) @ [a]) = rev (str n)"
    using a(2) str_digits[of n] by (subst takeWhile_append2) auto
  have l: "isdigit (last (a # str n))"
    using str_digits[of n] str_nonempty[of n] by simp
  show ?thesis
    using a tw l action_of_string_pauli[of p]
    by (simp add: parse_factor_def Let_def int_of_digits_str)
qed

lemma split_run_word:
  "\<forall>c \<in> set w. \<not> isspace c \<Longrightarrow> split_run (w @ rest) cur = split_run rest (cur @ w)"
  by (induction w arbitrary: cur) auto

lemma split_run_join:
  "\<forall>w \<in> set ws. w \<noteq> [] \<and> (\<forall>c \<in> set w. \<not> isspace c) \<Longrightarrow> ws \<noteq> [] \<Longrightarrow>
   split_run (join '' '' ws) [] = ws"
proof (induction ws rule: induct_list012)
  case 1
  then show ?case by simp
next
  case (2 x)
  then show ?case using split_run_word[of x "[]" "[]"] by simp
next
  case (3 x y ys)
  have "split_run (x @ '' '' @ join '' '' (y # ys)) [] = split_run ('' '' @ join '' '' (y # ys)) x"
    using 3(3) split_run_word[of x "'' '' @ join '' '' (y # ys)" "[]"] by simp
  also have "\<dots> = x # split_run (join '' '' (y # ys)) []"
    using 3(3) by (simp add: isspace_def)
  also have "\<dots> = x # y # ys" using 3 by simp
  finally show ?case by simp
qed

lemma split_join:
  "\<forall>w \<in> set ws. w \<noteq> [] \<and> (\<forall>c \<in> set w. \<not> isspace c) \<Longrightarrow> split (join '' '' ws) = ws"
  by (cases "ws = []") (simp_all add: split_def split_run_join)

lemma isdigit_not_isspace: "isdigit c \<Longrightarrow> \<not> isspace c"
  by (auto simp: isdigit_def isspace_def)

lemma factor_no_space:
  "pauli_to_str p @ str n \<noteq> [] \<and> (\<forall>c \<in> set (pauli_to_str p @ str n). \<not> isspace c)"
  using str_digits[of n] isdigit_not_isspace
  by (cases p) (auto simp: pauli_to_str_def isspace_def)

lemma parse_factors_format:
  "parse_factors (map (\<lambda>(index, pauli). pauli_to_str pauli @ str index) t) = Inr t"
  by (induction t) (auto simp: parse_factor_format)

lemma parse_string_key_of_term: "parse_string (key_of_term t) = Inr t"
proof -
  have "split (key_of_term t) = map (\<lambda>(index, pauli). pauli_to_str pauli @ str index) t"
    unfolding key_of_term_def
    by (rule split_join) (use factor_no_space in auto)
  then show ?thesis by (simp add: parse_string_def parse_factors_format)
qed


section \<open>A term in normal form survives the round trip through the libraries\<close>

lemma simplify_loop_canonical:
  "sorted_wrt (<) (li # map fst rest) \<Longrightarrow>
   simplify_loop (li, Some la) (map (\<lambda>(i, a). (i, Some a)) rest) new_term c =
     (c, new_term @ (li, la) # rest)"
  by (induction rest arbitrary: li la new_term) auto

lemma simplify_canonical: "canonical t \<Longrightarrow> simplify t c = (c, t)"
proof (cases t)
  case Nil
  then show ?thesis by (simp add: simplify_def)
next
  case (Cons f rest)
  assume "canonical t"
  then have sw: "sorted_wrt (<) (map fst t)" by (simp add: canonical_def)
  then have "sorted (map fst t)" by (rule strict_sorted_imp_sorted)
  then have "sort_key fst t = t" by (rule sort_key_id_if_sorted)
  then show ?thesis
    using Cons sw simplify_loop_canonical[of "fst f" rest "snd f" "[]" c]
    by (cases f) (simp add: simplify_def)
qed

lemma QubitOperator_key_of_term:
  "canonical t \<Longrightarrow> QubitOperator (key_of_term t) c = Inr [(t, c)]"
  by (simp add: QubitOperator_def parse_string_key_of_term simplify_canonical)

lemma update_fresh: "k \<notin> fst ` set d \<Longrightarrow> AList.update k v d = d @ [(k, v)]"
  by (induction d) auto

lemma dict_foldl:
  "distinct (map fst (d @ kvs)) \<Longrightarrow>
   foldl (\<lambda>d (k, v). AList.update k v d) d kvs = d @ kvs"
proof (induction kvs arbitrary: d)
  case Nil
  then show ?case by simp
next
  case (Cons kv kvs)
  obtain k v where kv: "kv = (k, v)" by (cases kv)
  from Cons.prems kv have fresh: "k \<notin> fst ` set d" by auto
  from Cons.prems kv have "distinct (map fst ((d @ [(k, v)]) @ kvs))" by auto
  from Cons.IH[OF this] fresh kv show ?case by (simp add: update_fresh)
qed

lemma dict_distinct: "distinct (map fst kvs) \<Longrightarrow> dict kvs = kvs"
  using dict_foldl[of "[]" kvs] by (simp add: dict_def)

lemma canonical_distinct: "canonical t \<Longrightarrow> distinct (map fst t)"
  by (simp add: canonical_def strict_sorted_iff)

lemma sorted_le_last: "sorted xs \<Longrightarrow> x \<in> set xs \<Longrightarrow> x \<le> last (xs :: nat list)"
  by (induction xs) auto

lemma canonical_index_le_last:
  "canonical t \<Longrightarrow> (ind, op) \<in> set t \<Longrightarrow> ind \<le> fst (last t)"
proof -
  assume can: "canonical t" and mem: "(ind, op) \<in> set t"
  then have ne: "t \<noteq> []" by auto
  from can have "sorted (map fst t)"
    by (simp add: canonical_def strict_sorted_imp_sorted)
  moreover from mem have "ind \<in> set (map fst t)" by force
  ultimately have "ind \<le> last (map fst t)" by (rule sorted_le_last)
  then show ?thesis using ne by (simp add: last_map)
qed

lemma index_lt_count_qubits:
  "canonical t \<Longrightarrow> (ind, op) \<in> set t \<Longrightarrow> ind < count_qubits [(t, c)]"
proof -
  assume can: "canonical t" and mem: "(ind, op) \<in> set t"
  then have "t \<noteq> []" by auto
  then have "count_qubits [(t, c)] = fst (last t) + 1"
    by (simp add: count_qubits_def)
  with canonical_index_le_last[OF can mem] show ?thesis by simp
qed

lemma qubit_pairs_upt:
  "\<forall>(ind, op) \<in> set t. ind < n \<Longrightarrow> qubit_pairs [0 ..< n] t = Inr t"
  by (induction t) auto

lemma term_to_pauli_string_canonical:
  "canonical t \<Longrightarrow>
   qubit_operator_term_to_pauli_string (t, c) [0 ..< count_qubits [(t, c)]] =
     Inr \<lparr>qubit_pauli_map = t, coefficient = c\<rparr>"
proof -
  assume can: "canonical t"
  have "\<forall>(ind, op) \<in> set t. ind < count_qubits [(t, c)]"
    using index_lt_count_qubits[OF can] by blast
  then have "qubit_pairs [0 ..< count_qubits [(t, c)]] t = Inr t"
    by (rule qubit_pairs_upt)
  then show ?thesis
    using can by (simp add: qubit_operator_term_to_pauli_string_def dict_distinct canonical_distinct)
qed

lemma from_pauli_strings_single:
  "from_pauli_strings [\<lparr>qubit_pauli_map = t, coefficient = c\<rparr>] = (if c = 0 then [] else [(t, c)])"
  by (simp add: from_pauli_strings_def linear_dict_update_def linear_dict_setitem_def
      linear_dict_del_def clean_def)

lemma linear_dict_get_fresh: "\<forall>k \<in> fst ` set d. set k \<noteq> set v \<Longrightarrow> linear_dict_get d v = 0"
proof (induction d)
  case Nil
  then show ?case by simp
next
  case (Cons a d)
  then show ?case by (cases a) simp
qed

lemma linear_dict_store_fresh:
  "\<forall>k \<in> fst ` set d. set k \<noteq> set v \<Longrightarrow> linear_dict_store d v c = d @ [(v, c)]"
proof (induction d)
  case Nil
  then show ?case by simp
next
  case (Cons a d)
  then show ?case by (cases a) simp
qed

lemma clean_nonzero: "\<forall>c \<in> snd ` set d. c \<noteq> 0 \<Longrightarrow> clean 0 d = d"
  by (induction d) (auto simp: clean_def)

lemma pauli_sum_iadd_fresh:
  assumes "c \<noteq> 0" "\<forall>k \<in> fst ` set s. set k \<noteq> set t" "\<forall>c \<in> snd ` set s. c \<noteq> 0"
  shows "pauli_sum_iadd s \<lparr>qubit_pauli_map = t, coefficient = c\<rparr> = s @ [(t, c)]"
proof -
  have "clean 0 (s @ [(t, c)]) = s @ [(t, c)]"
    by (rule clean_nonzero) (use assms in auto)
  then show ?thesis
    using assms
    by (simp add: pauli_sum_iadd_def from_pauli_strings_single linear_dict_iadd_def
        linear_dict_items_def clean_def linear_dict_setitem_def linear_dict_get_fresh
        linear_dict_store_fresh)
qed

lemma pauli_sum_iadd_zero:
  "\<forall>c \<in> snd ` set s. c \<noteq> 0 \<Longrightarrow> pauli_sum_iadd s \<lparr>qubit_pauli_map = t, coefficient = 0\<rparr> = s"
  by (simp add: pauli_sum_iadd_def from_pauli_strings_single linear_dict_iadd_def
      linear_dict_items_def clean_nonzero)

lemma qubit_operator_to_pauli_sum_single:
  "canonical t \<Longrightarrow> qubit_operator_to_pauli_sum [(t, c)] = Inr (if c = 0 then [] else [(t, c)])"
  using pauli_sum_iadd_fresh[of c "[]" t] pauli_sum_iadd_zero[of "[]" t]
  by (simp add: qubit_operator_to_pauli_sum_def term_to_pauli_string_canonical)

lemma converted_term_canonical:
  "canonical t \<Longrightarrow> map_of h t = Some c \<Longrightarrow>
   converted_term h t =
     (if c = 0 then Inl StopIteration else Inr \<lparr>qubit_pauli_map = t, coefficient = c\<rparr>)"
  by (simp add: converted_term_def QubitOperator_key_of_term qubit_operator_to_pauli_sum_single
      pauli_sum_iter_def linear_dict_items_def clean_def next_iter_def dict_distinct
      canonical_distinct)


section \<open>The loop of \<^verbatim>\<open>preprocess_hamiltonian\<close>\<close>

lemma rebuild_from_keys:
  "distinct (map fst xs) \<Longrightarrow> map (\<lambda>k. (k, the (map_of xs k))) (map fst xs) = xs"
proof -
  assume d: "distinct (map fst xs)"
  have "(fst x, the (map_of xs (fst x))) = x" if "x \<in> set xs" for x
  proof -
    from that have "(fst x, snd x) \<in> set xs" by simp
    with d have "map_of xs (fst x) = Some (snd x)" by (rule map_of_is_SomeI)
    then show ?thesis by simp
  qed
  then have "map (\<lambda>x. (fst x, the (map_of xs (fst x)))) xs = xs"
    by (simp add: map_idI)
  then show ?thesis by (simp add: comp_def)
qed

lemma canonical_set_unique:
  assumes "canonical t" "canonical u" "set t = set u"
  shows "t = u"
proof -
  have d: "distinct (map fst t)" "distinct (map fst u)"
    using assms by (simp_all add: canonical_distinct)
  have s: "sorted (map fst t)" "sorted (map fst u)"
    using assms by (simp_all add: canonical_def strict_sorted_imp_sorted)
  have "set (map fst t) = set (map fst u)" using assms(3) by simp
  then have keys: "map fst t = map fst u"
    using d s by (intro sorted_distinct_set_unique)
  have "map_of t = map_of u"
    using d assms(3) by (simp add: map_of_inject_set)
  then have "map (\<lambda>k. (k, the (map_of t k))) (map fst t) = map (\<lambda>k. (k, the (map_of u k))) (map fst u)"
    using keys by simp
  then show ?thesis using d by (simp only: rebuild_from_keys)
qed

lemma add_term_iff: "add_term ps t \<longleftrightarrow> (\<forall>p \<in> set ps. \<not> p t)"
  by (induction ps) auto

lemma preprocess_loop_inv:
  assumes "\<forall>t \<in> set ts. canonical t \<and> (\<exists>c. map_of h t = Some c \<and> (add_term ps t \<longrightarrow> c \<noteq> 0))"
    and "\<forall>k \<in> fst ` set acc. canonical k"
    and "distinct (map fst acc @ ts)"
    and "\<forall>c \<in> snd ` set acc. c \<noteq> 0"
  shows "preprocess_loop ps ts \<lparr>hamiltonian = h, new = acc\<rparr> =
           (None, \<lparr>hamiltonian = h,
                   new = acc @ map (\<lambda>t. (t, the (map_of h t))) (filter (add_term ps) ts)\<rparr>)"
  using assms
proof (induction ts arbitrary: acc)
  case Nil
  then show ?case by simp
next
  case (Cons t ts)
  from Cons.prems(1) obtain c where c: "canonical t" "map_of h t = Some c" "add_term ps t \<longrightarrow> c \<noteq> 0"
    by auto
  show ?case
  proof (cases "add_term ps t")
    case False
    have "preprocess_loop ps ts \<lparr>hamiltonian = h, new = acc\<rparr> =
           (None, \<lparr>hamiltonian = h,
                   new = acc @ map (\<lambda>t. (t, the (map_of h t))) (filter (add_term ps) ts)\<rparr>)"
      by (rule Cons.IH) (use Cons.prems in auto)
    with False show ?thesis by simp
  next
    case True
    with c have nz: "c \<noteq> 0" by simp
    have fresh: "\<forall>k \<in> fst ` set acc. set k \<noteq> set t"
    proof
      fix k assume k: "k \<in> fst ` set acc"
      with Cons.prems(2) have "canonical k" by blast
      moreover from k Cons.prems(3) have "k \<noteq> t" by auto
      ultimately show "set k \<noteq> set t" using c(1) canonical_set_unique by blast
    qed
    have step: "pauli_sum_iadd acc \<lparr>qubit_pauli_map = t, coefficient = c\<rparr> = acc @ [(t, c)]"
      using nz fresh Cons.prems(4) by (rule pauli_sum_iadd_fresh)
    have "preprocess_loop ps ts \<lparr>hamiltonian = h, new = acc @ [(t, c)]\<rparr> =
           (None, \<lparr>hamiltonian = h,
                   new = (acc @ [(t, c)]) @ map (\<lambda>t. (t, the (map_of h t))) (filter (add_term ps) ts)\<rparr>)"
      by (rule Cons.IH) (use Cons.prems c nz in auto)
    with True c nz step show ?thesis
      by (simp add: converted_term_canonical)
  qed
qed

lemma filter_keys_rebuild:
  "distinct (map fst h) \<Longrightarrow>
   map (\<lambda>t. (t, the (map_of h t))) (filter P (map fst h)) = filter (\<lambda>(t, c). P t) h"
proof -
  assume d: "distinct (map fst h)"
  have "map (\<lambda>t. (t, the (map_of h t))) (filter P (map fst h))
        = filter (\<lambda>(t, c). P t) (map (\<lambda>t. (t, the (map_of h t))) (map fst h))"
    by (simp add: filter_map comp_def)
  also have "\<dots> = filter (\<lambda>(t, c). P t) h"
    using d by (simp only: rebuild_from_keys)
  finally show ?thesis .
qed

lemma preprocess_hamiltonian_filter:
  assumes "well_formed h"
    and "ps = (case drop_term_if of None \<Rightarrow> [] | Some l \<Rightarrow> l)"
    and "\<forall>(t, c) \<in> set h. (\<forall>p \<in> set ps. \<not> p t) \<longrightarrow> c \<noteq> 0"
  shows "preprocess_hamiltonian h drop_term_if = Inr (filter (\<lambda>(t, c). \<forall>p \<in> set ps. \<not> p t) h)"
proof -
  have d: "distinct (map fst h)" and can: "\<forall>t \<in> set (map fst h). canonical t"
    using assms(1) by (simp_all add: well_formed_def list_all_iff)
  have 1: "\<forall>t \<in> set (map fst h). canonical t \<and> (\<exists>c. map_of h t = Some c \<and> (add_term ps t \<longrightarrow> c \<noteq> 0))"
  proof
    fix t assume t: "t \<in> set (map fst h)"
    then obtain c where c: "(t, c) \<in> set h" by auto
    with d have "map_of h t = Some c" by simp
    moreover from c assms(3) have "add_term ps t \<longrightarrow> c \<noteq> 0"
      by (auto simp: add_term_iff)
    ultimately show "canonical t \<and> (\<exists>c. map_of h t = Some c \<and> (add_term ps t \<longrightarrow> c \<noteq> 0))"
      using can t by blast
  qed
  have "preprocess_loop ps (map fst h) \<lparr>hamiltonian = h, new = []\<rparr> =
           (None, \<lparr>hamiltonian = h,
                   new = [] @ map (\<lambda>t. (t, the (map_of h t))) (filter (add_term ps) (map fst h))\<rparr>)"
    by (rule preprocess_loop_inv) (use 1 d in auto)
  then have "preprocess_run h drop_term_if =
           (None, \<lparr>hamiltonian = h, new = filter (\<lambda>(t, c). add_term ps t) h\<rparr>)"
    using assms(2) d by (simp add: preprocess_run_def filter_keys_rebuild)
  then show ?thesis
    by (simp add: preprocess_hamiltonian_def add_term_iff)
qed

lemma length_filter_key:
  "distinct (map fst h) \<Longrightarrow>
   length (filter (\<lambda>(t, c). t \<noteq> a) h) = (if a \<in> fst ` set h then length h - 1 else length h)"
proof (induction h)
  case Nil
  then show ?case by simp
next
  case (Cons x h)
  have "0 < length h" if "a \<in> fst ` set h"
    using that by (cases h) auto
  with Cons show ?case by (cases x) (auto simp: image_iff)
qed

lemma preprocess_loop_frame: "hamiltonian (snd (preprocess_loop ps ts s)) = hamiltonian s"
  by (induction ts arbitrary: s) (auto split: sum.splits)

lemma convert_loop_frame: "pauli_sum (snd (convert_loop qs ts s)) = pauli_sum s"
  by (induction ts arbitrary: s) (auto simp: Let_def)

text \<open>An equation for \<^const>\<open>clean\<close> that evaluates without square roots.\<close>

lemma clean_code [code]:
  "clean atol d = filter (\<lambda>(k, c). \<not> (0 \<le> atol \<and> (Re c)\<^sup>2 + (Im c)\<^sup>2 \<le> atol\<^sup>2)) d"
proof -
  have "cmod c \<le> atol \<longleftrightarrow> 0 \<le> atol \<and> (Re c)\<^sup>2 + (Im c)\<^sup>2 \<le> atol\<^sup>2" for c
    unfolding cmod_def
    by (metis norm_ge_zero order_trans cmod_def real_sqrt_le_iff real_sqrt_abs abs_of_nonneg)
  then show ?thesis by (simp add: clean_def)
qed

section \<open>The loop of \<^verbatim>\<open>cirq_pauli_sum_to_qiskit_pauli_op\<close>\<close>

lemma isclose_zero: "isclose a 0 rtol atol \<longleftrightarrow> \<bar>a\<bar> \<le> atol"
  by (simp add: isclose_def)

lemma term_string_map:
  "term_string qs t acc =
     acc @ concat (map (\<lambda>q. case map_of (qubit_pauli_map t) q of
                          None \<Rightarrow> ''I'' | Some p \<Rightarrow> cirq_pauli_to_str p) qs)"
  by (induction qs arbitrary: acc) (auto split: option.splits)

lemma convert_loop_error:
  "fst (convert_loop qs ts s) =
     (if \<exists>t \<in> set ts. \<not> \<bar>Im (coefficient t)\<bar> \<le> 1 / 10 ^ 7 then Some AssertionError else None)"
  by (induction ts arbitrary: s) (auto simp: Let_def isclose_zero)

lemma convert_loop_ok:
  "\<forall>t \<in> set ts. \<bar>Im (coefficient t)\<bar> \<le> 1 / 10 ^ 7 \<Longrightarrow>
   convert_loop qs ts s =
     (None, s\<lparr>terms := terms s @ map (\<lambda>t. term_string qs t []) ts,
              coeffs_list := coeffs_list s @ map (\<lambda>t. Re (coefficient t)) ts\<rparr>)"
  by (induction ts arbitrary: s) (auto simp: Let_def isclose_zero)

lemma pauli_sum_iter_well_formed:
  "well_formed_sum s \<Longrightarrow>
   pauli_sum_iter s = map (\<lambda>(k, c). \<lparr>qubit_pauli_map = k, coefficient = c\<rparr>) s"
proof -
  assume wf: "well_formed_sum s"
  then have "\<forall>c \<in> snd ` set s. c \<noteq> 0"
    by (auto simp: well_formed_sum_def list_all_iff)
  then have "clean 0 s = s" by (rule clean_nonzero)
  moreover have "map (\<lambda>(vec, c). \<lparr>qubit_pauli_map = dict vec, coefficient = c\<rparr>) s
      = map (\<lambda>(k, c). \<lparr>qubit_pauli_map = k, coefficient = c\<rparr>) s"
    by (rule map_cong) (use wf in \<open>auto simp: well_formed_sum_def list_all_iff dict_distinct\<close>)
  ultimately show ?thesis by (simp add: pauli_sum_iter_def linear_dict_items_def)
qed

lemma cirq_pauli_to_str_single: "cirq_pauli_to_str p = [hd (cirq_pauli_to_str p)]"
  by (cases p) (simp_all add: cirq_pauli_to_str_def)

lemma term_string_chars:
  "term_string qs t [] =
     map (\<lambda>q. case map_of (qubit_pauli_map t) q of
                 None \<Rightarrow> CHR ''I'' | Some p \<Rightarrow> hd (cirq_pauli_to_str p)) qs"
proof -
  have "(case map_of (qubit_pauli_map t) q of None \<Rightarrow> ''I'' | Some p \<Rightarrow> cirq_pauli_to_str p)
        = [case map_of (qubit_pauli_map t) q of
             None \<Rightarrow> CHR ''I'' | Some p \<Rightarrow> hd (cirq_pauli_to_str p)]" for q
    using cirq_pauli_to_str_single by (simp split: option.splits)
  then show ?thesis
    by (simp add: term_string_map)
qed

lemma convert_cases:
  assumes "well_formed_sum s"
  shows "cirq_pauli_sum_to_qiskit_pauli_op s =
     (if \<exists>(k, c) \<in> set s. \<not> \<bar>Im c\<bar> \<le> 1 / 10 ^ 7 then Inl AssertionError
      else if s = [] then Inl QiskitError
      else Inr \<lparr>paulis = map (\<lambda>(k, c). map (\<lambda>q. case map_of k q of
                                   None \<Rightarrow> CHR ''I'' | Some p \<Rightarrow> hd (cirq_pauli_to_str p))
                                 (pauli_sum_qubits s)) s,
                coeffs = map (\<lambda>(k, c). complex_of_real (Re c)) s\<rparr>)"
proof -
  let ?ts = "map (\<lambda>(k, c). \<lparr>qubit_pauli_map = k, coefficient = c\<rparr>) s"
  let ?s0 = "\<lparr>pauli_sum = s, terms = [], coeffs_list = []\<rparr>"
  have it: "pauli_sum_iter s = ?ts" using assms by (rule pauli_sum_iter_well_formed)
  show ?thesis
  proof (cases "\<exists>(k, c) \<in> set s. \<not> \<bar>Im c\<bar> \<le> 1 / 10 ^ 7")
    case True
    then have "\<exists>t \<in> set ?ts. \<not> \<bar>Im (coefficient t)\<bar> \<le> 1 / 10 ^ 7" by force
    then have "fst (convert_loop (pauli_sum_qubits s) ?ts ?s0) = Some AssertionError"
      by (simp only: convert_loop_error if_True)
    then show ?thesis
      using True it
      by (auto simp: cirq_pauli_sum_to_qiskit_pauli_op_def convert_run_def Let_def
          split: prod.splits option.splits)
  next
    case False
    then have "\<forall>t \<in> set ?ts. \<bar>Im (coefficient t)\<bar> \<le> 1 / 10 ^ 7" by auto
    from convert_loop_ok[OF this, of "pauli_sum_qubits s" ?s0]
    have "convert_loop (pauli_sum_qubits s) ?ts ?s0 =
            (None, \<lparr>pauli_sum = s,
                    terms = map (\<lambda>t. term_string (pauli_sum_qubits s) t []) ?ts,
                    coeffs_list = map (\<lambda>t. Re (coefficient t)) ?ts\<rparr>)"
      by simp
    then show ?thesis
      using False it
      by (simp add: cirq_pauli_sum_to_qiskit_pauli_op_def convert_run_def SparsePauliOp_def
          term_string_chars comp_def case_prod_unfold Let_def)
  qed
qed

section \<open>The loop of the shots cell\<close>










section \<open>Claims about \<^verbatim>\<open>preprocess_hamiltonian\<close>\<close>

text \<open>
  C1, as the code has it. Let \<open>h\<close> be a QubitOperator (its keys distinct, its terms
  in normal form), \<open>ps\<close> the list of predicates
  passed as \<^verbatim>\<open>drop_term_if\<close> (the empty list for the default \<^verbatim>\<open>None\<close>), and let
  every term of \<open>h\<close> that no predicate drops have a coefficient other than zero. Then
  \<^verbatim>\<open>preprocess_hamiltonian\<close> returns the PauliSum whose terms are exactly the terms of
  \<open>h\<close> that no predicate in \<open>ps\<close> drops, in the order of \<open>h\<close>, each with the same
  Pauli letters on the same qubit indices and the same coefficient.
\<close>

theorem preprocess_hamiltonian_keeps_terms:
  assumes "well_formed h"
    and "ps = (case drop_term_if of None \<Rightarrow> [] | Some l \<Rightarrow> l)"
    and "\<forall>(t, c) \<in> set h. (\<forall>p \<in> set ps. \<not> p t) \<longrightarrow> c \<noteq> 0"
  shows "preprocess_hamiltonian h drop_term_if =
           Inr (filter (\<lambda>(t, c). \<forall>p \<in> set ps. \<not> p t) h)"
  using assms by (rule preprocess_hamiltonian_filter)

theorem preprocess_hamiltonian_keeps_terms_witness:
  "well_formed [([(0, X)], 1), ([], 2), ([(0, Z), (12, Y)], 3), ([(3, Y)], 0)]
   \<and> list_all (\<lambda>(t, c). c \<noteq> 0 \<or> t = [] \<or> length t = 1 \<and> fst (hd t) = 3)
         [([(0, X)], 1), ([], 2), ([(0, Z), (12, Y)], 3), ([(3, Y)], 0 :: complex)]
   \<and> preprocess_hamiltonian [([(0, X)], 1), ([], 2), ([(0, Z), (12, Y)], 3), ([(3, Y)], 0)]
        (Some [\<lambda>t. t = [], \<lambda>t. length t = 1 \<and> fst (hd t) = 3])
      = Inr [([(0, X)], 1), ([(0, Z), (12, Y)], 3)]"
  using preprocess_hamiltonian_keeps_terms
          [of "[([(0, X)], 1), ([], 2), ([(0, Z), (12, Y)], 3), ([(3, Y)], 0)]"
              "[\<lambda>t. t = [], \<lambda>t. length t = 1 \<and> fst (hd t) = 3]"
              "Some [\<lambda>t. t = [], \<lambda>t. length t = 1 \<and> fst (hd t) = 3]"]
  by (simp add: well_formed_def canonical_def)

text \<open>
  C1 as stated, for every QubitOperator, fails: a term with coefficient \<open>0\<close> that is
  not dropped is lost in \<^verbatim>\<open>qubit_operator_to_pauli_sum\<close>, whose result is then
  empty, and \<^verbatim>\<open>next(iter(...))\<close> raises \<^verbatim>\<open>StopIteration\<close>.
\<close>

theorem preprocess_hamiltonian_zero_coefficient:
  "well_formed [([(0, X)], 0)]
   \<and> preprocess_hamiltonian [([(0, X)], 0)] None = Inl StopIteration"
  by (simp add: well_formed_def canonical_def) code_simp

text \<open>
  C9, as the code has it. Let every term of \<open>h\<close> other than the identity have a
  coefficient other than zero. Then the notebook's call
  \<^verbatim>\<open>preprocess_hamiltonian(h, drop_term_if=[lambda term: term == ()])\<close> returns a
  PauliSum with no identity term; it has one term less than \<open>h\<close> when \<open>h\<close> contains
  the identity term, and as many terms as \<open>h\<close> otherwise.
\<close>

theorem drop_identity:
  assumes "well_formed h"
    and "\<forall>(t, c) \<in> set h. t \<noteq> [] \<longrightarrow> c \<noteq> 0"
  shows "\<exists>s. preprocess_hamiltonian h (Some [\<lambda>term. term = []]) = Inr s
           \<and> (\<forall>(k, c) \<in> set s. k \<noteq> [])
           \<and> length s = (if [] \<in> fst ` set h then length h - 1 else length h)"
proof -
  have "preprocess_hamiltonian h (Some [\<lambda>term. term = []]) =
          Inr (filter (\<lambda>(t, c). \<forall>p \<in> set [\<lambda>term. term = []]. \<not> p t) h)"
    by (rule preprocess_hamiltonian_filter) (use assms in auto)
  then have r: "preprocess_hamiltonian h (Some [\<lambda>term. term = []]) = Inr (filter (\<lambda>(t, c). t \<noteq> []) h)"
    by simp
  have d: "distinct (map fst h)" using assms(1) by (simp add: well_formed_def)
  show ?thesis
    using r length_filter_key[OF d, of "[]"] by auto
qed

theorem drop_identity_witness:
  "well_formed [([], 5), ([(1, Y)], 2), ([(0, X), (2, Z)], - 1)]
   \<and> list_all (\<lambda>(t, c). t = [] \<or> c \<noteq> 0)
         [([], 5), ([(1, Y)], 2), ([(0, X), (2, Z)], - 1 :: complex)]
   \<and> (\<exists>s. preprocess_hamiltonian [([], 5), ([(1, Y)], 2), ([(0, X), (2, Z)], - 1)]
              (Some [\<lambda>term. term = []]) = Inr s
          \<and> (\<forall>(k, c) \<in> set s. k \<noteq> [])
          \<and> length s = 2)"
proof -
  have wf: "well_formed [([], 5), ([(1, Y)], 2), ([(0, X), (2, Z)], - 1)]"
    by (simp add: well_formed_def canonical_def)
  have nz: "\<forall>(t, c) \<in> set [([], 5), ([(1, Y)], 2), ([(0, X), (2, Z)], - 1 :: complex)].
              t \<noteq> [] \<longrightarrow> c \<noteq> 0"
    by simp
  show ?thesis
    using wf nz drop_identity [OF wf nz] by auto
qed

text \<open>
  C9 as stated, for every QubitOperator, fails in the same way as C1: a term other than
  the identity with coefficient \<open>0\<close> makes the call raise \<^verbatim>\<open>StopIteration\<close>.
\<close>

theorem drop_identity_zero_coefficient:
  "well_formed [([], 1), ([(0, Z)], 0)]
   \<and> preprocess_hamiltonian [([], 1), ([(0, Z)], 0)] (Some [\<lambda>term. term = []])
       = Inl StopIteration"
  by (simp add: well_formed_def canonical_def) code_simp

section \<open>Claims about \<^verbatim>\<open>cirq_pauli_sum_to_qiskit_pauli_op\<close>\<close>

text \<open>
  C2, as the code has it. For every PauliSum with at least one term whose coefficients
  all have an imaginary part within \<^verbatim>\<open>1e-7\<close> of zero,
  \<^verbatim>\<open>cirq_pauli_sum_to_qiskit_pauli_op\<close> returns a SparsePauliOp with one Pauli string
  per term of the sum, in the order of iteration; each string is as long as the sum has
  qubits, its \<open>j\<close>-th character is \<^verbatim>\<open>I\<close> when the \<open>j\<close>-th qubit does not appear in the
  term and the letter of the Pauli on that qubit otherwise, and the coefficient is the
  real part of the term's coefficient.
\<close>

theorem convert_nonempty:
  assumes "well_formed_sum s" and "s \<noteq> []"
    and "\<forall>(k, c) \<in> set s. \<bar>Im c\<bar> \<le> 1 / 10 ^ 7"
  shows "\<exists>r. cirq_pauli_sum_to_qiskit_pauli_op s = Inr r \<and> one_label_per_term s r"
proof -
  let ?r = "\<lparr>paulis = map (\<lambda>(k, c). map (\<lambda>q. case map_of k q of
                                   None \<Rightarrow> CHR ''I'' | Some p \<Rightarrow> hd (cirq_pauli_to_str p))
                                 (pauli_sum_qubits s)) s,
                coeffs = map (\<lambda>(k, c). complex_of_real (Re c)) s\<rparr>"
  have res: "cirq_pauli_sum_to_qiskit_pauli_op s = Inr ?r"
    using assms by (auto simp: convert_cases)
  have "one_label_per_term s ?r"
    unfolding one_label_per_term_def
  proof (intro conjI allI impI)
    fix i j p
    assume i: "i < length s" and j: "j < length (pauli_sum_qubits s)"
    obtain k c where kc: "s ! i = (k, c)" by (cases "s ! i")
    with i have "(k, c) \<in> set s" by (metis nth_mem)
    with assms(1) have d: "distinct (map fst k)"
      by (auto simp: well_formed_sum_def list_all_iff)
    {
      assume "pauli_sum_qubits s ! j \<notin> fst ` set (fst (s ! i))"
      then have "map_of k (pauli_sum_qubits s ! j) = None"
        using kc by (simp add: map_of_eq_None_iff)
      then show "paulis ?r ! i ! j = CHR ''I''"
        using i j kc by simp
    }
    {
      assume "(pauli_sum_qubits s ! j, p) \<in> set (fst (s ! i))"
      then have "map_of k (pauli_sum_qubits s ! j) = Some p"
        using kc d by simp
      then show "[paulis ?r ! i ! j] = cirq_pauli_to_str p"
        using i j kc cirq_pauli_to_str_single[of p] by simp
    }
  qed (simp_all add: case_prod_unfold)
  with res show ?thesis by blast
qed

theorem convert_nonempty_witness:
  "well_formed_sum [([(0, X), (2, Z)], 3 / 2), ([(1, Y)], Complex 2 (1 / 10 ^ 8))]
   \<and> list_all (\<lambda>(k, c). \<bar>Im c\<bar> \<le> 1 / 10 ^ 7)
         [([(0, X), (2, Z)], 3 / 2), ([(1, Y)], Complex 2 (1 / 10 ^ 8))]
   \<and> cirq_pauli_sum_to_qiskit_pauli_op
         [([(0, X), (2, Z)], 3 / 2), ([(1, Y)], Complex 2 (1 / 10 ^ 8))]
       = Inr \<lparr>paulis = [''XIZ'', ''IYI''], coeffs = [3 / 2, 2]\<rparr>
   \<and> one_label_per_term [([(0, X), (2, Z)], 3 / 2), ([(1, Y)], Complex 2 (1 / 10 ^ 8))]
         \<lparr>paulis = [''XIZ'', ''IYI''], coeffs = [3 / 2, 2]\<rparr>"
proof -
  let ?s = "[([(0, X), (2, Z)], 3 / 2), ([(1, Y)], Complex 2 (1 / 10 ^ 8))]"
  have wf: "well_formed_sum ?s" by (simp add: well_formed_sum_def complex_eq_iff)
  have ne: "?s \<noteq> []" by simp
  have tol: "\<forall>(k, c) \<in> set ?s. \<bar>Im c\<bar> \<le> 1 / 10 ^ 7" by simp
  have res: "cirq_pauli_sum_to_qiskit_pauli_op ?s
               = Inr \<lparr>paulis = [''XIZ'', ''IYI''], coeffs = [3 / 2, 2]\<rparr>"
    by code_simp
  from convert_nonempty [OF wf ne tol] res
  have "one_label_per_term ?s \<lparr>paulis = [''XIZ'', ''IYI''], coeffs = [3 / 2, 2]\<rparr>" by auto
  with wf tol res show ?thesis by (simp add: list_all_iff)
qed

text \<open>
  C2 as stated, for every PauliSum, fails for the sum without terms: the function calls
  \<^verbatim>\<open>SparsePauliOp([], [])\<close>, which raises \<^verbatim>\<open>QiskitError\<close>.
\<close>

theorem convert_empty_sum:
  "well_formed_sum [] \<and> cirq_pauli_sum_to_qiskit_pauli_op [] = Inl QiskitError"
  by (simp add: well_formed_sum_def) code_simp

text \<open>
  C8. \<^verbatim>\<open>cirq_pauli_sum_to_qiskit_pauli_op\<close> raises \<^verbatim>\<open>AssertionError\<close> if and only
  if some term of the sum has a coefficient whose imaginary part is further than
  \<^verbatim>\<open>1e-7\<close> from zero. It returns if and only if the sum has a term and every imaginary
  part is within the tolerance, and when it returns, the coefficients of the result are
  the real parts of the coefficients of the terms, so what is left of an imaginary part
  is dropped.
\<close>

theorem assertion_iff:
  assumes "well_formed_sum s"
  shows "(cirq_pauli_sum_to_qiskit_pauli_op s = Inl AssertionError
            \<longleftrightarrow> (\<exists>(k, c) \<in> set s. 1 / 10 ^ 7 < \<bar>Im c\<bar>))
         \<and> ((\<exists>r. cirq_pauli_sum_to_qiskit_pauli_op s = Inr r)
            \<longleftrightarrow> s \<noteq> [] \<and> (\<forall>(k, c) \<in> set s. \<bar>Im c\<bar> \<le> 1 / 10 ^ 7))
         \<and> (\<forall>r. cirq_pauli_sum_to_qiskit_pauli_op s = Inr r
                \<longrightarrow> coeffs r = map (\<lambda>(k, c). complex_of_real (Re c)) s)"
proof -
  have "(\<exists>(k, c) \<in> set s. \<not> \<bar>Im c\<bar> \<le> 1 / 10 ^ 7) \<longleftrightarrow> (\<exists>(k, c) \<in> set s. 1 / 10 ^ 7 < \<bar>Im c\<bar>)"
    by (auto simp: not_le)
  then show ?thesis
    unfolding convert_cases[OF assms] by (auto split: if_splits)
qed

theorem assertion_iff_witness:
  "well_formed_sum [([(0, X)], 1), ([(1, Z)], Complex 2 (1 / 10 ^ 6))]
   \<and> cirq_pauli_sum_to_qiskit_pauli_op [([(0, X)], 1), ([(1, Z)], Complex 2 (1 / 10 ^ 6))]
       = Inl AssertionError
   \<and> well_formed_sum [([(0, X)], 1), ([(1, Z)], Complex 2 (1 / 10 ^ 8))]
   \<and> (\<exists>r. cirq_pauli_sum_to_qiskit_pauli_op [([(0, X)], 1), ([(1, Z)], Complex 2 (1 / 10 ^ 8))]
            = Inr r
          \<and> coeffs r = [1, 2])"
proof -
  have wf1: "well_formed_sum [([(0, X)], 1), ([(1, Z)], Complex 2 (1 / 10 ^ 6))]"
    by (simp add: well_formed_sum_def complex_eq_iff)
  have wf2: "well_formed_sum [([(0, X)], 1), ([(1, Z)], Complex 2 (1 / 10 ^ 8))]"
    by (simp add: well_formed_sum_def complex_eq_iff)
  have raises: "cirq_pauli_sum_to_qiskit_pauli_op
                  [([(0, X)], 1), ([(1, Z)], Complex 2 (1 / 10 ^ 6))] = Inl AssertionError"
    using assertion_iff [OF wf1] by simp
  have "\<exists>r. cirq_pauli_sum_to_qiskit_pauli_op
               [([(0, X)], 1), ([(1, Z)], Complex 2 (1 / 10 ^ 8))] = Inr r"
    using assertion_iff [OF wf2] by simp
  then obtain r where r: "cirq_pauli_sum_to_qiskit_pauli_op
                            [([(0, X)], 1), ([(1, Z)], Complex 2 (1 / 10 ^ 8))] = Inr r" ..
  with assertion_iff [OF wf2] have "coeffs r = [1, 2]" by simp
  with wf1 wf2 raises r show ?thesis by blast
qed

section \<open>Claim about the arguments of both functions\<close>

text \<open>
  C10. \<^verbatim>\<open>preprocess_hamiltonian\<close> and \<^verbatim>\<open>cirq_pauli_sum_to_qiskit_pauli_op\<close> leave
  their argument as it was: in the state either function ends with, whether it returns or
  raises, the argument has the terms and coefficients it had at the call.
\<close>

theorem inputs_unchanged:
  "hamiltonian (snd (preprocess_run h drop_term_if)) = h
   \<and> pauli_sum (snd (convert_run s)) = s"
proof
  show "hamiltonian (snd (preprocess_run h drop_term_if)) = h"
    by (simp add: preprocess_run_def preprocess_loop_frame)
  have "pauli_sum (snd (convert_loop (pauli_sum_qubits s) (pauli_sum_iter s)
                          \<lparr>pauli_sum = s, terms = [], coeffs_list = []\<rparr>)) = s"
    by (simp add: convert_loop_frame)
  then show "pauli_sum (snd (convert_run s)) = s"
    by (auto simp: convert_run_def split: prod.splits option.splits)
qed

section \<open>Claim about the shot counts\<close>




end
